theory Spec2Isabelle
  imports Main "HOL-Library.AList"
begin

section \<open>Pointer Focus: widgets and the host toolkit\<close>

text \<open>
  The plugin (\<^verbatim>\<open>pointerfocus/pointer_focus.py\<close>) only uses four things of a GTK widget:
  its identity (widgets are elements of Python sets and keys of dicts), the property
  \<^verbatim>\<open>can_focus\<close>, whether it is a \<^verbatim>\<open>gtk.Notebook\<close>, and the method
  \<^verbatim>\<open>get_children\<close>, which only containers have. A widget is modelled as a finite tree
  carrying exactly these: \<open>wid\<close> is the identity of the object (two different objects
  have different \<open>wid\<close>s, so that equality of values is identity of objects),
  \<open>kids = None\<close> is a widget without \<^verbatim>\<open>get_children\<close>. Every GTK widget is a
  GObject with the property \<^verbatim>\<open>can-focus\<close>, so on widgets
  \<^verbatim>\<open>get_property('can_focus')\<close> is the field \<open>can_focus\<close>; objects without the method
  \<^verbatim>\<open>get_property\<close> are the matter of \<open>get_focusables_py\<close> below.
\<close>

datatype error = AttributeError | KeyError

datatype widget =
  Widget (wid: nat) (can_focus: bool) (is_notebook: bool) (kids: "widget list option")

text \<open>\<^verbatim>\<open>widget.get_children()\<close>: raises AttributeError where the method is missing.\<close>

definition get_children :: "widget \<Rightarrow> error + widget list" where
  "get_children widget =
     (case kids widget of None \<Rightarrow> Inl AttributeError | Some cs \<Rightarrow> Inr cs)"

text \<open>The parent-child relation of the widget tree: \<open>(c, w)\<close> when \<open>c\<close> is a child of \<open>w\<close>.\<close>

definition child_rel :: "(widget \<times> widget) set" where
  "child_rel = {(c, w). \<exists>cs. get_children w = Inr cs \<and> c \<in> set cs}"

text \<open>
  The widgets below \<open>w\<close>, \<open>w\<close> included: the children of every widget that has
  \<^verbatim>\<open>get_children\<close>, recursively.
\<close>

fun subtree :: "widget \<Rightarrow> widget set" where
  "subtree (Widget i f n None) = {Widget i f n None}"
| "subtree (Widget i f n (Some cs)) =
     insert (Widget i f n (Some cs)) (\<Union> (subtree ` set cs))"

subsection \<open>Collecting widgets\<close>

text \<open>
  A Python \<^verbatim>\<open>set\<close> of widgets is a list without repetition: \<^verbatim>\<open>s.add(x)\<close> is
  \<open>List.insert x s\<close> and \<^verbatim>\<open>s |= t\<close> is \<open>List.union t s\<close>. Python leaves the
  iteration order of a set open; the model iterates in the order of the list.
  The \<^verbatim>\<open>LOGGER.log\<close> calls have no effect on the state and are left out; the parameter
  \<^verbatim>\<open>original\<close> only guards one of them.
\<close>

lemma child_rel_size: "(c, w) \<in> child_rel \<Longrightarrow> size c < size w"
proof -
  assume "(c, w) \<in> child_rel"
  then obtain cs where cs: "kids w = Some cs" and c: "c \<in> set cs"
    by (auto simp: child_rel_def get_children_def split: option.splits)
  from c have "size c \<le> size_list size cs"
    by (induction cs) auto
  with cs show ?thesis
    by (cases w) simp
qed

lemma wf_child_rel_aux: "wf child_rel"
proof (rule wf_subset)
  show "wf (measure (size :: widget \<Rightarrow> nat))" by simp
  show "child_rel \<subseteq> measure size"
    using child_rel_size by auto
qed

function get_notebooks :: "widget \<Rightarrow> bool \<Rightarrow> error + widget list" where
  "get_notebooks widget original =
     (let notebooks = [] in
      case get_children widget of
        Inl e \<Rightarrow> if e = AttributeError then Inr notebooks else Inl e
      | Inr children \<Rightarrow>
          fold (\<lambda>child acc.
                  case acc of
                    Inl e \<Rightarrow> Inl e
                  | Inr notebooks \<Rightarrow>
                      (case get_notebooks child False of
                         Inl e \<Rightarrow> Inl e
                       | Inr found \<Rightarrow> Inr (List.union found notebooks)))
               children
               (Inr (if is_notebook widget then List.insert widget notebooks
                     else notebooks)))"
  by pat_completeness auto
termination
proof (relation "inv_image child_rel fst")
  show "wf (inv_image child_rel fst)"
    by (rule wf_inv_image) (rule wf_child_rel_aux)
qed (auto simp: child_rel_def)

function get_focusables :: "widget \<Rightarrow> bool \<Rightarrow> error + widget list" where
  "get_focusables widget original =
     (let focusables = [];
          focusables = (if can_focus widget then List.insert widget focusables
                        else focusables) in
      case get_children widget of
        Inl e \<Rightarrow> if e = AttributeError then Inr focusables else Inl e
      | Inr children \<Rightarrow>
          fold (\<lambda>child acc.
                  case acc of
                    Inl e \<Rightarrow> Inl e
                  | Inr focusables \<Rightarrow>
                      (case get_focusables child False of
                         Inl e \<Rightarrow> Inl e
                       | Inr found \<Rightarrow> Inr (List.union found focusables)))
               children
               (Inr focusables))"
  by pat_completeness auto
termination
proof (relation "inv_image child_rel fst")
  show "wf (inv_image child_rel fst)"
    by (rule wf_inv_image) (rule wf_child_rel_aux)
qed (auto simp: child_rel_def)

declare get_notebooks.simps [simp del]
declare get_focusables.simps [simp del]

text \<open>
  \<^verbatim>\<open>_get_focusables\<close> again, for Python objects that need not be GTK widgets:
  \<open>has_get_property\<close> tells which objects have the method \<^verbatim>\<open>get_property\<close> at all.
  The call \<^verbatim>\<open>widget.get_property('can_focus')\<close> stands before the \<^verbatim>\<open>try\<close>, so its
  AttributeError is not caught. On objects that all have the method this is
  \<open>get_focusables\<close> (lemma \<open>get_focusables_py_agrees\<close>).
\<close>

definition get_property_can_focus :: "(widget \<Rightarrow> bool) \<Rightarrow> widget \<Rightarrow> error + bool" where
  "get_property_can_focus has_get_property widget =
     (if has_get_property widget then Inr (can_focus widget) else Inl AttributeError)"

function get_focusables_py :: "(widget \<Rightarrow> bool) \<Rightarrow> widget \<Rightarrow> bool \<Rightarrow> error + widget list" where
  "get_focusables_py has_get_property widget original =
     (let focusables = [] in
      case get_property_can_focus has_get_property widget of
        Inl e \<Rightarrow> Inl e
      | Inr can \<Rightarrow>
          (let focusables = (if can then List.insert widget focusables
                             else focusables) in
           case get_children widget of
             Inl e \<Rightarrow> if e = AttributeError then Inr focusables else Inl e
           | Inr children \<Rightarrow>
               fold (\<lambda>child acc.
                       case acc of
                         Inl e \<Rightarrow> Inl e
                       | Inr focusables \<Rightarrow>
                           (case get_focusables_py has_get_property child False of
                              Inl e \<Rightarrow> Inl e
                            | Inr found \<Rightarrow> Inr (List.union found focusables)))
                    children
                    (Inr focusables)))"
  by pat_completeness auto
termination
proof (relation "inv_image child_rel (\<lambda>(h, w, b). w)")
  show "wf (inv_image child_rel (\<lambda>(h, w, b). w))"
    by (rule wf_inv_image) (rule wf_child_rel_aux)
qed (auto simp: child_rel_def)

declare get_focusables_py.simps [simp del]

subsection \<open>The host's signals\<close>

text \<open>
  What the plugin uses of GTK's signal machinery: \<^verbatim>\<open>connect\<close> registers a handler on a
  widget for a signal and returns a fresh handler id, \<^verbatim>\<open>disconnect\<close> removes the
  handler with that id from that widget, \<^verbatim>\<open>add_events\<close> enables an event mask (only
  \<^verbatim>\<open>ENTER_NOTIFY_MASK\<close> is ever passed) and \<^verbatim>\<open>grab_focus\<close> asks for the keyboard
  focus. The table \<open>connections\<close> holds the handlers this plugin has connected and not
  yet disconnected, oldest first; \<open>focus_grabs\<close> is the log of the \<^verbatim>\<open>grab_focus\<close>
  calls, oldest first.
\<close>

datatype connection = Connection (c_widget: widget) (c_signal: string) (c_id: nat)

record gtk =
  next_id :: nat
  connections :: "connection list"
  enter_mask :: "widget list"
  focus_grabs :: "widget list"

definition gtk_init :: gtk where
  "gtk_init = \<lparr>next_id = 1, connections = [], enter_mask = [], focus_grabs = []\<rparr>"

definition connect :: "widget \<Rightarrow> string \<Rightarrow> gtk \<Rightarrow> nat \<times> gtk" where
  "connect w sig g =
     (next_id g,
      g\<lparr>next_id := Suc (next_id g),
        connections := connections g @ [Connection w sig (next_id g)]\<rparr>)"

definition disconnect :: "widget \<Rightarrow> nat \<Rightarrow> gtk \<Rightarrow> gtk" where
  "disconnect w hid g =
     g\<lparr>connections := filter (\<lambda>c. \<not> (c_widget c = w \<and> c_id c = hid)) (connections g)\<rparr>"

definition add_events :: "widget \<Rightarrow> gtk \<Rightarrow> gtk" where
  "add_events w g = g\<lparr>enter_mask := List.insert w (enter_mask g)\<rparr>"

definition grab_focus :: "widget \<Rightarrow> gtk \<Rightarrow> gtk" where
  "grab_focus w g = g\<lparr>focus_grabs := focus_grabs g @ [w]\<rparr>"

text \<open>The handlers connected to a signal of a widget, in the order of connection.\<close>

definition handlers_of :: "widget \<Rightarrow> string \<Rightarrow> gtk \<Rightarrow> connection list" where
  "handlers_of w sig g = filter (\<lambda>c. c_widget c = w \<and> c_signal c = sig) (connections g)"

text \<open>The pointer event; its coordinates are only logged.\<close>

datatype event = Event (ev_x: int) (ev_y: int)

subsection \<open>PointerFocusWindowHelper\<close>

text \<open>
  The names are those of the source without the leading underscore; the attribute
  \<^verbatim>\<open>_window\<close> is \<open>the_window\<close>. The two dicts are association lists,
  \<open>d[k] = v\<close> is \<open>AList.update k v d\<close> (it replaces the value of a key that is
  present), and a loop over the keys of a dict that looks each key up runs over the pairs
  of the list. A method that changes the helper or the host takes both and returns them;
  one that can raise returns, beside the state it leaves, the exception or \<open>None\<close>.
\<close>

record helper =
  the_window :: widget
  handlers_per_notebook :: "(widget \<times> nat) list"
  handlers_per_focusable :: "(widget \<times> nat) list"

type_synonym state = "helper \<times> gtk"

definition helper_init :: "widget \<Rightarrow> helper" where
  "helper_init w = \<lparr>the_window = w, handlers_per_notebook = [], handlers_per_focusable = []\<rparr>"

fun connect_notebook :: "widget \<Rightarrow> state \<Rightarrow> state" where
  "connect_notebook notebook (h, g) =
     (case connect notebook ''page-added'' g of
        (hid, g') \<Rightarrow>
          (h\<lparr>handlers_per_notebook := AList.update notebook hid (handlers_per_notebook h)\<rparr>,
           g'))"

definition connect_notebooks :: "widget list \<Rightarrow> state \<Rightarrow> state" where
  "connect_notebooks notebooks s = fold connect_notebook notebooks s"

fun disconnect_notebooks :: "state \<Rightarrow> state" where
  "disconnect_notebooks (h, g) =
     (h\<lparr>handlers_per_notebook := []\<rparr>,
      fold (\<lambda>(notebook, hid) g. disconnect notebook hid g) (handlers_per_notebook h) g)"

fun connect_focusable :: "widget \<Rightarrow> state \<Rightarrow> state" where
  "connect_focusable focusable (h, g) =
     (case connect focusable ''enter-notify-event'' (add_events focusable g) of
        (hid, g') \<Rightarrow>
          (h\<lparr>handlers_per_focusable :=
               AList.update focusable hid (handlers_per_focusable h)\<rparr>,
           g'))"

definition connect_focusables :: "widget list \<Rightarrow> state \<Rightarrow> state" where
  "connect_focusables focusables s = fold connect_focusable focusables s"

fun disconnect_focusables :: "state \<Rightarrow> state" where
  "disconnect_focusables (h, g) =
     (h\<lparr>handlers_per_focusable := []\<rparr>,
      fold (\<lambda>(focusable, hid) g. disconnect focusable hid g) (handlers_per_focusable h) g)"

definition on_page_added :: "widget \<Rightarrow> widget \<Rightarrow> nat \<Rightarrow> state \<Rightarrow> state \<times> error option" where
  "on_page_added notebook child page_num s =
     (case get_focusables child True of
        Inl e \<Rightarrow> (s, Some e)
      | Inr focusables \<Rightarrow> (connect_focusables focusables s, None))"

fun on_enter_notify_event :: "widget \<Rightarrow> event \<Rightarrow> state \<Rightarrow> state \<times> error option" where
  "on_enter_notify_event widget event (h, g) = ((h, grab_focus widget g), None)"

definition activate :: "state \<Rightarrow> state \<times> error option" where
  "activate s =
     (case get_notebooks (the_window (fst s)) True of
        Inl e \<Rightarrow> (s, Some e)
      | Inr notebooks \<Rightarrow>
          (let s1 = connect_notebooks notebooks s in
           case fold (\<lambda>notebook acc.
                        case acc of
                          Inl e \<Rightarrow> Inl e
                        | Inr focusables \<Rightarrow>
                            (case get_focusables notebook True of
                               Inl e \<Rightarrow> Inl e
                             | Inr found \<Rightarrow> Inr (List.union found focusables)))
                     notebooks (Inr [])
           of
             Inl e \<Rightarrow> (s1, Some e)
           | Inr focusables \<Rightarrow> (connect_focusables focusables s1, None)))"

definition deactivate :: "state \<Rightarrow> state" where
  "deactivate s = disconnect_focusables (disconnect_notebooks s)"

text \<open>
  A widget is subscribed when the dict of focusables holds a handler id for it, that
  handler is connected to its \<^verbatim>\<open>enter-notify-event\<close>, and its event mask lets the
  event through.
\<close>

definition subscribed :: "widget \<Rightarrow> state \<Rightarrow> bool" where
  "subscribed f s =
     (case map_of (handlers_per_focusable (fst s)) f of
        None \<Rightarrow> False
      | Some hid \<Rightarrow>
          Connection f ''enter-notify-event'' hid \<in> set (connections (snd s))
          \<and> f \<in> set (enter_mask (snd s)))"

text \<open>Every widget that is a key of a dict in \<open>s\<close> is one in \<open>s'\<close>.\<close>

definition keys_subset :: "state \<Rightarrow> state \<Rightarrow> bool" where
  "keys_subset s s' \<longleftrightarrow>
     fst ` set (handlers_per_notebook (fst s)) \<subseteq> fst ` set (handlers_per_notebook (fst s'))
     \<and> fst ` set (handlers_per_focusable (fst s))
         \<subseteq> fst ` set (handlers_per_focusable (fst s'))"

subsection \<open>Delivery of signals\<close>

text \<open>
  When a signal is emitted on a widget, the host calls the callback once for every handler
  connected to that signal of that widget at that moment. PyGTK reports an exception of a
  callback and goes on, so an emission leaves no exception behind.
\<close>

definition emit_page_added :: "widget \<Rightarrow> widget \<Rightarrow> nat \<Rightarrow> state \<Rightarrow> state" where
  "emit_page_added notebook child page_num s =
     fold (\<lambda>c s. fst (on_page_added notebook child page_num s))
          (handlers_of notebook ''page-added'' (snd s)) s"

definition emit_enter_notify :: "widget \<Rightarrow> event \<Rightarrow> state \<Rightarrow> state" where
  "emit_enter_notify widget event s =
     fold (\<lambda>c s. fst (on_enter_notify_event widget event s))
          (handlers_of widget ''enter-notify-event'' (snd s)) s"

text \<open>The life of a helper: what its owner and the host do to it, in sequence.\<close>

datatype op = Activate | Deactivate | Page_added widget widget nat | Enter_notify widget event

fun step :: "op \<Rightarrow> state \<Rightarrow> state \<times> error option" where
  "step Activate s = activate s"
| "step Deactivate s = (deactivate s, None)"
| "step (Page_added notebook child page_num) s = (emit_page_added notebook child page_num s, None)"
| "step (Enter_notify widget event) s = (emit_enter_notify widget event s, None)"

fun run :: "op list \<Rightarrow> state \<Rightarrow> state \<times> error option" where
  "run [] s = (s, None)"
| "run (x # xs) s =
     (case step x s of
        (s', Some e) \<Rightarrow> (s', Some e)
      | (s', None) \<Rightarrow> run xs s')"

text \<open>
  What holds of the notebooks throughout the life of a helper of window \<open>w\<close> whose first
  tree walk finds the notebooks \<open>ns\<close>: the keys of the dict of notebooks, and the
  widgets with a handler on \<^verbatim>\<open>page-added\<close>, are among \<open>ns\<close>.
\<close>

definition notebooks_inv :: "widget \<Rightarrow> widget list \<Rightarrow> state \<Rightarrow> bool" where
  "notebooks_inv w ns s \<longleftrightarrow>
     the_window (fst s) = w
     \<and> fst ` set (handlers_per_notebook (fst s)) \<subseteq> set ns
     \<and> c_widget ` set (filter (\<lambda>c. c_signal c = ''page-added'') (connections (snd s)))
         \<subseteq> set ns"

subsection \<open>An example window\<close>

text \<open>
  A window with one notebook, empty when the plugin is activated; a tab holding a text
  view, as is added for a document; and a page holding a notebook of its own.
\<close>

definition ex_notebook :: widget where
  "ex_notebook = Widget 1 True True (Some [])"

definition ex_window :: widget where
  "ex_window = Widget 0 False False (Some [ex_notebook])"

definition ex_view :: widget where
  "ex_view = Widget 3 True False None"

definition ex_tab :: widget where
  "ex_tab = Widget 2 False False (Some [ex_view])"

definition ex_inner :: widget where
  "ex_inner = Widget 5 True True (Some [])"

definition ex_page :: widget where
  "ex_page = Widget 4 False False (Some [ex_inner])"

text \<open>Every object but the view of the example has \<^verbatim>\<open>get_property\<close>.\<close>

definition ex_has_get_property :: "widget \<Rightarrow> bool" where
  "ex_has_get_property w \<longleftrightarrow> w \<noteq> ex_view"

subsection \<open>PointerFocusPlugin\<close>

record plugin =
  instances :: "(widget \<times> helper) list"

definition plugin_init :: plugin where
  "plugin_init = \<lparr>instances = []\<rparr>"

text \<open>
  The helper stored under \<open>window\<close> is changed in place by its own methods; the model
  writes the changed helper back.
\<close>

fun plugin_activate :: "widget \<Rightarrow> plugin \<times> gtk \<Rightarrow> (plugin \<times> gtk) \<times> error option" where
  "plugin_activate window (p, g) =
     (let p1 = p\<lparr>instances := AList.update window (helper_init window) (instances p)\<rparr> in
      case activate (helper_init window, g) of
        ((h', g'), err) \<Rightarrow>
          ((p1\<lparr>instances := AList.update window h' (instances p1)\<rparr>, g'), err))"

fun plugin_deactivate :: "widget \<Rightarrow> plugin \<times> gtk \<Rightarrow> (plugin \<times> gtk) \<times> error option" where
  "plugin_deactivate window (p, g) =
     (case map_of (instances p) window of
        None \<Rightarrow> ((p, g), Some KeyError)
      | Some h \<Rightarrow>
          (case deactivate (h, g) of
             (h', g') \<Rightarrow>
               ((p\<lparr>instances :=
                     AList.delete window (AList.update window h' (instances p))\<rparr>, g'),
                None)))"

section \<open>Properties of the collection of widgets\<close>

lemma subtree_None: "kids w = None \<Longrightarrow> subtree w = {w}"
  by (cases w) simp

lemma subtree_Some: "kids w = Some cs \<Longrightarrow> subtree w = insert w (\<Union> (subtree ` set cs))"
  by (cases w) simp

lemma fold_collect:
  assumes "\<And>c. c \<in> set cs \<Longrightarrow> \<exists>r. f c = Inr r \<and> set r = S c"
  shows "\<exists>r. fold (\<lambda>child acc.
                  case acc of
                    Inl e \<Rightarrow> Inl e
                  | Inr a \<Rightarrow>
                      (case f child of
                         Inl e \<Rightarrow> Inl e
                       | Inr found \<Rightarrow> Inr (List.union found a)))
               cs (Inr a0) = Inr r
             \<and> set r = set a0 \<union> (\<Union>c\<in>set cs. S c) \<and> (distinct a0 \<longrightarrow> distinct r)"
  using assms
proof (induction cs arbitrary: a0)
  case Nil
  then show ?case by simp
next
  case (Cons c cs)
  from Cons.prems obtain r where r: "f c = Inr r" "set r = S c"
    by (meson list.set_intros(1))
  have "\<And>c'. c' \<in> set cs \<Longrightarrow> \<exists>r. f c' = Inr r \<and> set r = S c'"
    using Cons.prems by simp
  from Cons.IH [OF this, of "List.union r a0"] r show ?case
    by auto
qed

lemma get_focusables_char:
  "\<exists>fs. get_focusables w orig = Inr fs \<and> set fs = {v \<in> subtree w. can_focus v} \<and> distinct fs"
proof (induction w arbitrary: orig rule: wf_induct_rule [OF wf_child_rel_aux])
  case (1 w)
  show ?case
  proof (cases "kids w")
    case None
    then show ?thesis
      by (auto simp: get_focusables.simps [of w] get_children_def subtree_None)
  next
    case (Some cs)
    have ih: "\<And>c. c \<in> set cs \<Longrightarrow>
        \<exists>r. get_focusables c False = Inr r \<and> set r = {v \<in> subtree c. can_focus v}"
      using 1 [of _ False] Some by (fastforce simp: child_rel_def get_children_def)
    note fc = fold_collect [of cs "\<lambda>c. get_focusables c False" "\<lambda>c. {v \<in> subtree c. can_focus v}", OF ih,
         of "if can_focus w then [w] else []"]
    obtain r where r: "fold (\<lambda>child acc.
                  case acc of
                    Inl e \<Rightarrow> Inl e
                  | Inr a \<Rightarrow>
                      (case get_focusables child False of
                         Inl e \<Rightarrow> Inl e
                       | Inr found \<Rightarrow> Inr (List.union found a)))
               cs (Inr (if can_focus w then [w] else [])) = Inr r"
      and sr: "set r = set (if can_focus w then [w] else []) \<union>
                 (\<Union>c\<in>set cs. {v \<in> subtree c. can_focus v})"
      and dr: "distinct r" using fc by (auto split: if_splits)
    have "get_focusables w orig = Inr r"
      using r Some by (cases "can_focus w") (simp_all add: get_focusables.simps [of w] get_children_def)
    moreover have "set r = {v \<in> subtree w. can_focus v}"
      unfolding sr subtree_Some [OF Some] by auto
    ultimately show ?thesis using dr by blast
  qed
qed

lemma get_notebooks_char:
  "\<exists>ns. get_notebooks w orig = Inr ns \<and> set ns = {v \<in> subtree w. is_notebook v \<and> kids v \<noteq> None} \<and> distinct ns"
proof (induction w arbitrary: orig rule: wf_induct_rule [OF wf_child_rel_aux])
  case (1 w)
  show ?case
  proof (cases "kids w")
    case None
    then show ?thesis
      by (auto simp: get_notebooks.simps [of w] get_children_def subtree_None)
  next
    case (Some cs)
    have ih: "\<And>c. c \<in> set cs \<Longrightarrow>
        \<exists>r. get_notebooks c False = Inr r \<and> set r = {v \<in> subtree c. is_notebook v \<and> kids v \<noteq> None}"
      using 1 [of _ False] Some by (fastforce simp: child_rel_def get_children_def)
    note fc = fold_collect [of cs "\<lambda>c. get_notebooks c False" "\<lambda>c. {v \<in> subtree c. is_notebook v \<and> kids v \<noteq> None}", OF ih,
         of "if is_notebook w then [w] else []"]
    obtain r where r: "fold (\<lambda>child acc.
                  case acc of
                    Inl e \<Rightarrow> Inl e
                  | Inr a \<Rightarrow>
                      (case get_notebooks child False of
                         Inl e \<Rightarrow> Inl e
                       | Inr found \<Rightarrow> Inr (List.union found a)))
               cs (Inr (if is_notebook w then [w] else [])) = Inr r"
      and sr: "set r = set (if is_notebook w then [w] else []) \<union>
                 (\<Union>c\<in>set cs. {v \<in> subtree c. is_notebook v \<and> kids v \<noteq> None})"
      and dr: "distinct r" using fc by (auto split: if_splits)
    have "get_notebooks w orig = Inr r"
      using r Some by (cases "is_notebook w") (simp_all add: get_notebooks.simps [of w] get_children_def)
    moreover have "set r = {v \<in> subtree w. is_notebook v \<and> kids v \<noteq> None}"
      unfolding sr subtree_Some [OF Some] using Some by auto
    ultimately show ?thesis using dr by blast
  qed
qed


lemma get_children_None: "get_children v = Inl AttributeError \<longleftrightarrow> kids v = None"
  by (simp add: get_children_def split: option.splits)

text \<open>
  C4. For every widget \<open>w\<close>, \<^verbatim>\<open>_get_focusables(w)\<close> returns exactly the set of the
  widgets of the subtree rooted at \<open>w\<close> whose \<^verbatim>\<open>can_focus\<close> property is true (and
  raises nothing); the subtree holds \<open>w\<close> and, for each of its widgets that has
  \<^verbatim>\<open>get_children\<close>, that widget's children, recursively.
\<close>

theorem get_focusables_subtree:
  "\<exists>fs. get_focusables w original = Inr fs \<and> set fs = {v \<in> subtree w. can_focus v}
        \<and> distinct fs"
  by (rule get_focusables_char)

lemma fold_collect_Inl:
  "fold (\<lambda>child acc.
           case acc of
             Inl e \<Rightarrow> Inl e
           | Inr a \<Rightarrow>
               (case f child of
                  Inl e \<Rightarrow> Inl e
                | Inr found \<Rightarrow> Inr (List.union found a)))
        cs (Inl e) = Inl e"
  by (induction cs) simp_all

lemma fold_collect_fails:
  assumes "c \<in> set cs" and "f c = Inl AttributeError"
    and "\<And>c' e. c' \<in> set cs \<Longrightarrow> f c' = Inl e \<Longrightarrow> e = AttributeError"
  shows "fold (\<lambda>child acc.
           case acc of
             Inl e \<Rightarrow> Inl e
           | Inr a \<Rightarrow>
               (case f child of
                  Inl e \<Rightarrow> Inl e
                | Inr found \<Rightarrow> Inr (List.union found a)))
        cs (Inr a0) = Inl AttributeError"
  using assms
proof (induction cs arbitrary: a0)
  case Nil
  then show ?case by simp
next
  case (Cons x cs)
  show ?case
  proof (cases "f x")
    case (Inl e)
    with Cons.prems(3) [of x e] have "e = AttributeError" by simp
    with Inl show ?thesis by (simp add: fold_collect_Inl)
  next
    case (Inr found)
    with Cons.prems have cin: "c \<in> set cs" by auto
    have rest: "\<And>c' e. c' \<in> set cs \<Longrightarrow> f c' = Inl e \<Longrightarrow> e = AttributeError"
      using Cons.prems(3) by (meson list.set_intros(2))
    have "fold (\<lambda>child acc.
           case acc of
             Inl e \<Rightarrow> Inl e
           | Inr a \<Rightarrow>
               (case f child of
                  Inl e \<Rightarrow> Inl e
                | Inr found \<Rightarrow> Inr (List.union found a)))
        cs (Inr (List.union found a0)) = Inl AttributeError"
      by (rule Cons.IH [OF cin Cons.prems(2) rest])
    with Inr show ?thesis by simp
  qed
qed

lemma fold_collect_error:
  assumes "fold (\<lambda>child acc.
           case acc of
             Inl e \<Rightarrow> Inl e
           | Inr a \<Rightarrow>
               (case f child of
                  Inl e \<Rightarrow> Inl e
                | Inr found \<Rightarrow> Inr (List.union found a)))
        cs (Inr a0) = Inl e"
  shows "\<exists>c\<in>set cs. f c = Inl e"
  using assms
proof (induction cs arbitrary: a0)
  case Nil
  then show ?case by simp
next
  case (Cons x cs)
  show ?case
  proof (cases "f x")
    case (Inl e')
    with Cons.prems show ?thesis by (simp add: fold_collect_Inl)
  next
    case (Inr found)
    with Cons.prems Cons.IH [of "List.union found a0"] show ?thesis by simp
  qed
qed

lemma get_focusables_py_error:
  "get_focusables_py has t orig = Inl e \<Longrightarrow> e = AttributeError"
proof (induction t arbitrary: orig e rule: wf_induct_rule [OF wf_child_rel_aux])
  case (1 t)
  show ?case
  proof (cases "has t")
    case False
    with 1(2) show ?thesis
      by (simp add: get_focusables_py.simps [of has t] get_property_can_focus_def)
  next
    case True
    show ?thesis
    proof (cases "kids t")
      case None
      with True 1(2) show ?thesis
        by (simp add: get_focusables_py.simps [of has t] get_property_can_focus_def
            get_children_def)
    next
      case (Some cs)
      with True 1(2) have "fold (\<lambda>child acc.
                       case acc of
                         Inl e \<Rightarrow> Inl e
                       | Inr focusables \<Rightarrow>
                           (case get_focusables_py has child False of
                              Inl e \<Rightarrow> Inl e
                            | Inr found \<Rightarrow> Inr (List.union found focusables)))
                    cs (Inr (if can_focus t then [t] else [])) = Inl e"
        by (cases "can_focus t")
          (simp_all add: get_focusables_py.simps [of has t] get_property_can_focus_def
            get_children_def)
      from fold_collect_error [OF this]
      obtain c where c: "c \<in> set cs" "get_focusables_py has c False = Inl e" by blast
      from c(1) Some have "(c, t) \<in> child_rel"
        by (auto simp: child_rel_def get_children_def)
      from 1(1) [OF this c(2)] show ?thesis .
    qed
  qed
qed

lemma get_focusables_py_fails:
  "v \<in> subtree t \<Longrightarrow> \<not> has v \<Longrightarrow> get_focusables_py has t orig = Inl AttributeError"
proof (induction t arbitrary: orig rule: wf_induct_rule [OF wf_child_rel_aux])
  case (1 t)
  show ?case
  proof (cases "has t")
    case False
    then show ?thesis
      by (simp add: get_focusables_py.simps [of has t] get_property_can_focus_def)
  next
    case True
    with 1(3) have neq: "v \<noteq> t" by auto
    show ?thesis
    proof (cases "kids t")
      case None
      with 1(2) neq show ?thesis by (simp add: subtree_None)
    next
      case (Some cs)
      with 1(2) neq obtain c where c: "c \<in> set cs" "v \<in> subtree c"
        by (auto simp: subtree_Some)
      from c(1) Some have "(c, t) \<in> child_rel"
        by (auto simp: child_rel_def get_children_def)
      from 1(1) [OF this c(2) 1(3)]
      have "get_focusables_py has c False = Inl AttributeError" .
      then have "fold (\<lambda>child acc.
                       case acc of
                         Inl e \<Rightarrow> Inl e
                       | Inr focusables \<Rightarrow>
                           (case get_focusables_py has child False of
                              Inl e \<Rightarrow> Inl e
                            | Inr found \<Rightarrow> Inr (List.union found focusables)))
                    cs (Inr (if can_focus t then [t] else [])) = Inl AttributeError"
        using c(1) get_focusables_py_error [of has _ False]
        by (intro fold_collect_fails [of c cs "\<lambda>c. get_focusables_py has c False"]) auto
      then show ?thesis
        using True Some
        by (cases "can_focus t")
          (simp_all add: get_focusables_py.simps [of has t] get_property_can_focus_def
            get_children_def)
    qed
  qed
qed

lemma get_focusables_py_agrees:
  "(\<And>u. u \<in> subtree t \<Longrightarrow> has u) \<Longrightarrow> get_focusables_py has t orig = get_focusables t orig"
proof (induction t arbitrary: orig rule: wf_induct_rule [OF wf_child_rel_aux])
  case (1 t)
  have ht: "has t" using 1(2) [of t] by (cases t; cases "kids t") auto
  show ?case
  proof (cases "kids t")
    case None
    with ht show ?thesis
      by (simp add: get_focusables_py.simps [of has t] get_focusables.simps [of t]
          get_property_can_focus_def get_children_def)
  next
    case (Some cs)
    have eq: "get_focusables_py has c False = get_focusables c False" if "c \<in> set cs" for c
    proof -
      from that Some have "(c, t) \<in> child_rel"
        by (auto simp: child_rel_def get_children_def)
      moreover have "\<And>u. u \<in> subtree c \<Longrightarrow> has u"
        using 1(2) that Some by (auto simp: subtree_Some)
      ultimately show ?thesis by (rule 1(1))
    qed
    have "fold (\<lambda>child acc.
                       case acc of
                         Inl e \<Rightarrow> Inl e
                       | Inr focusables \<Rightarrow>
                           (case get_focusables_py has child False of
                              Inl e \<Rightarrow> Inl e
                            | Inr found \<Rightarrow> Inr (List.union found focusables)))
                    cs a
        = fold (\<lambda>child acc.
                       case acc of
                         Inl e \<Rightarrow> Inl e
                       | Inr focusables \<Rightarrow>
                           (case get_focusables child False of
                              Inl e \<Rightarrow> Inl e
                            | Inr found \<Rightarrow> Inr (List.union found focusables)))
                    cs a" for a
      by (rule fold_cong) (auto simp: eq fun_eq_iff split: sum.splits)
    with ht Some show ?thesis
      by (simp add: get_focusables_py.simps [of has t] get_focusables.simps [of t]
          get_property_can_focus_def get_children_def)
  qed
qed

text \<open>
  C7. Only a missing \<^verbatim>\<open>get_children\<close> is tolerated during the collection, and the widget
  \<open>v\<close> that lacks it is treated as a leaf, not skipped: both \<^verbatim>\<open>_get_notebooks\<close> and
  \<^verbatim>\<open>_get_focusables\<close> return without an exception on a tree \<open>t\<close> that holds \<open>v\<close>;
  \<open>v\<close> is left out of the notebooks (which are the notebooks among the widgets that do
  have \<^verbatim>\<open>get_children\<close>), but it is among the focusables exactly when its
  \<^verbatim>\<open>can_focus\<close> is true (the focusables are those of the whole tree). A missing
  \<^verbatim>\<open>get_property\<close> is not tolerated: when \<open>v\<close> lacks it, \<^verbatim>\<open>_get_focusables\<close> raises
  AttributeError on \<open>t\<close>.
\<close>

theorem missing_get_children_is_leaf:
  assumes "v \<in> subtree t"
  shows "(get_children v = Inl AttributeError \<longrightarrow>
            (\<exists>ns. get_notebooks t o1 = Inr ns \<and> v \<notin> set ns
                 \<and> set ns = {u \<in> subtree t. is_notebook u
                                 \<and> get_children u \<noteq> Inl AttributeError})
            \<and> (\<exists>fs. get_focusables t o2 = Inr fs \<and> (v \<in> set fs \<longleftrightarrow> can_focus v)
                 \<and> set fs = {u \<in> subtree t. can_focus u}))
       \<and> (\<not> has_get_property v \<longrightarrow>
            get_focusables_py has_get_property t o3 = Inl AttributeError)"
proof -
  obtain ns where ns: "get_notebooks t o1 = Inr ns"
      "set ns = {u \<in> subtree t. is_notebook u \<and> kids u \<noteq> None}"
    using get_notebooks_char [of t o1] by blast
  obtain fs where fs: "get_focusables t o2 = Inr fs" "set fs = {u \<in> subtree t. can_focus u}"
    using get_focusables_char [of t o2] by blast
  have 1: "v \<notin> set ns" if "get_children v = Inl AttributeError"
    using ns that by (simp add: get_children_None)
  have 2: "v \<in> set fs \<longleftrightarrow> can_focus v"
    using fs assms by simp
  have 3: "get_focusables_py has_get_property t o3 = Inl AttributeError"
    if "\<not> has_get_property v"
    using assms that by (rule get_focusables_py_fails)
  from ns fs 1 2 3 show ?thesis
    by (simp add: get_children_None)
qed

theorem missing_get_children_is_leaf_witness:
  "ex_view \<in> subtree ex_tab
   \<and> get_children ex_view = Inl AttributeError
   \<and> \<not> ex_has_get_property ex_view
   \<and> (\<exists>ns. get_notebooks ex_tab True = Inr ns \<and> ex_view \<notin> set ns)
   \<and> (\<exists>fs. get_focusables ex_tab True = Inr fs \<and> ex_view \<in> set fs)
   \<and> get_focusables_py ex_has_get_property ex_tab True = Inl AttributeError"
proof -
  have a: "ex_view \<in> subtree ex_tab"
    by (simp add: ex_view_def ex_tab_def)
  have b: "get_children ex_view = Inl AttributeError"
    by (simp add: ex_view_def get_children_def)
  have c: "\<not> ex_has_get_property ex_view"
    by (simp add: ex_has_get_property_def)
  have d: "can_focus ex_view"
    by (simp add: ex_view_def)
  from missing_get_children_is_leaf [OF a, of True True ex_has_get_property True] a b c d
  show ?thesis by blast
qed

text \<open>
  C7 as the specification words it does not hold. The view of the example lacks
  \<^verbatim>\<open>get_children\<close> and is collected all the same by \<^verbatim>\<open>_get_focusables\<close> (the result
  for the remaining widgets, the tab alone, would be empty); and when it lacks
  \<^verbatim>\<open>get_property\<close>, the traversal of the tab raises AttributeError.
\<close>

theorem missing_capability_not_skipped:
  "get_children ex_view = Inl AttributeError
   \<and> get_focusables ex_tab True = Inr [ex_view]
   \<and> get_focusables_py ex_has_get_property ex_tab True = Inl AttributeError"
  by code_simp

text \<open>
  C10. \<^verbatim>\<open>_get_notebooks\<close> and \<^verbatim>\<open>_get_focusables\<close> terminate on every finite widget
  tree: the relation between a widget and its children, along which both recurse, is
  well-founded, and both return a result for every widget.
\<close>

theorem collection_terminates:
  "wf child_rel \<and> (\<exists>ns. get_notebooks w o1 = Inr ns) \<and> (\<exists>fs. get_focusables w o2 = Inr fs)"
  using wf_child_rel_aux get_notebooks_char [of w o1] get_focusables_char [of w o2] by blast

section \<open>Properties of the subscriptions\<close>

lemma emit_enter_notify_fold:
  "fold (\<lambda>c s. fst (on_enter_notify_event w ev s)) cs s
     = (fst s, (snd s)\<lparr>focus_grabs := focus_grabs (snd s) @ replicate (length cs) w\<rparr>)"
proof (induction cs arbitrary: s)
  case Nil
  then show ?case by simp
next
  case (Cons c cs)
  show ?case
    by (cases s) (simp add: Cons.IH grab_focus_def replicate_app_Cons_same)
qed

lemma emit_enter_notify_eq:
  "emit_enter_notify w ev s
     = (fst s, (snd s)\<lparr>focus_grabs := focus_grabs (snd s)
           @ replicate (length (handlers_of w ''enter-notify-event'' (snd s))) w\<rparr>)"
proof -
  have "snd (fst s, snd s) = snd s" by simp
  show ?thesis
    unfolding emit_enter_notify_def
    by (rule emit_enter_notify_fold)
qed

text \<open>
  C1. When a pointer-enter event is delivered for a widget \<open>w\<close> that the helper has
  connected to \<^verbatim>\<open>enter-notify-event\<close>, \<^verbatim>\<open>grab_focus\<close> is called on \<open>w\<close>, at least
  once, and on no other widget; nothing else changes.
\<close>

theorem enter_notify_grabs_focus:
  assumes "Connection w ''enter-notify-event'' hid \<in> set (connections (snd s))"
  shows "\<exists>k>0. emit_enter_notify w ev s
           = (fst s, (snd s)\<lparr>focus_grabs := focus_grabs (snd s) @ replicate k w\<rparr>)"
proof -
  let ?k = "length (handlers_of w ''enter-notify-event'' (snd s))"
  from assms have "Connection w ''enter-notify-event'' hid
      \<in> set (handlers_of w ''enter-notify-event'' (snd s))"
    by (simp add: handlers_of_def)
  then have "0 < ?k"
    by (cases "handlers_of w ''enter-notify-event'' (snd s)") auto
  with emit_enter_notify_eq [of w ev s] show ?thesis by blast
qed

theorem enter_notify_grabs_focus_witness:
  "Connection ex_view ''enter-notify-event'' 3
     \<in> set (connections (snd (helper_init ex_window,
            gtk_init\<lparr>connections := [Connection ex_view ''enter-notify-event'' 3]\<rparr>)))
   \<and> (\<exists>k>0. emit_enter_notify ex_view (Event 10 20)
          (helper_init ex_window,
           gtk_init\<lparr>connections := [Connection ex_view ''enter-notify-event'' 3]\<rparr>)
        = (helper_init ex_window,
           gtk_init\<lparr>connections := [Connection ex_view ''enter-notify-event'' 3],
                      focus_grabs := replicate k ex_view\<rparr>))"
proof -
  let ?s = "(helper_init ex_window,
             gtk_init\<lparr>connections := [Connection ex_view ''enter-notify-event'' 3]\<rparr>)"
  have a: "Connection ex_view ''enter-notify-event'' 3 \<in> set (connections (snd ?s))"
    by simp
  from enter_notify_grabs_focus [OF a, of "Event 10 20"] a show ?thesis
    by (simp add: gtk_init_def)
qed

lemma connect_focusable_simps:
  "the_window (fst (connect_focusable f s)) = the_window (fst s)"
  "handlers_per_notebook (fst (connect_focusable f s)) = handlers_per_notebook (fst s)"
  "handlers_per_focusable (fst (connect_focusable f s))
     = AList.update f (next_id (snd s)) (handlers_per_focusable (fst s))"
  "connections (snd (connect_focusable f s))
     = connections (snd s) @ [Connection f ''enter-notify-event'' (next_id (snd s))]"
  "enter_mask (snd (connect_focusable f s)) = List.insert f (enter_mask (snd s))"
  "focus_grabs (snd (connect_focusable f s)) = focus_grabs (snd s)"
  by (cases s; simp add: connect_def add_events_def)+

lemma connect_notebook_simps:
  "the_window (fst (connect_notebook n s)) = the_window (fst s)"
  "handlers_per_focusable (fst (connect_notebook n s)) = handlers_per_focusable (fst s)"
  "handlers_per_notebook (fst (connect_notebook n s))
     = AList.update n (next_id (snd s)) (handlers_per_notebook (fst s))"
  "connections (snd (connect_notebook n s))
     = connections (snd s) @ [Connection n ''page-added'' (next_id (snd s))]"
  "enter_mask (snd (connect_notebook n s)) = enter_mask (snd s)"
  "focus_grabs (snd (connect_notebook n s)) = focus_grabs (snd s)"
  by (cases s; simp add: connect_def)+

lemma subscribed_connect_focusable:
  "subscribed f s \<or> f = f' \<Longrightarrow> subscribed f (connect_focusable f' s)"
  by (auto simp: subscribed_def connect_focusable_simps AList.update_conv'
      split: option.splits)

lemma subscribed_connect_focusables_keep:
  "subscribed f s \<Longrightarrow> subscribed f (connect_focusables fs s)"
  unfolding connect_focusables_def
  by (induction fs arbitrary: s) (simp_all add: subscribed_connect_focusable)

lemma subscribed_connect_focusables_new:
  "f \<in> set fs \<Longrightarrow> subscribed f (connect_focusables fs s)"
  unfolding connect_focusables_def
proof (induction fs arbitrary: s)
  case Nil
  then show ?case by simp
next
  case (Cons a fs)
  show ?case
  proof (cases "f = a")
    case True
    then have "subscribed f (connect_focusable a s)"
      by (simp add: subscribed_connect_focusable)
    then show ?thesis
      using subscribed_connect_focusables_keep [of f "connect_focusable a s" fs]
      by (simp add: connect_focusables_def)
  next
    case False
    with Cons show ?thesis by simp
  qed
qed

lemma subscribed_fold_keep:
  "subscribed f s \<Longrightarrow> subscribed f (fold (\<lambda>c s. connect_focusables fs s) cs s)"
  by (induction cs arbitrary: s) (simp_all add: subscribed_connect_focusables_keep)

text \<open>
  C5. When \<^verbatim>\<open>page-added\<close> is delivered for a notebook the helper is connected to, every
  focusable widget of the subtree of the added page ends up subscribed: the dict of
  focusables holds a handler id for it, and that handler is connected to its
  \<^verbatim>\<open>enter-notify-event\<close>.
\<close>

theorem page_added_subscribes:
  assumes "handlers_of notebook ''page-added'' (snd s) \<noteq> []"
    and "f \<in> subtree child" and "can_focus f"
  shows "subscribed f (emit_page_added notebook child page_num s)"
proof -
  obtain fs where fs: "set fs = {v \<in> subtree child. can_focus v}"
    and eq: "\<And>s. on_page_added notebook child page_num s = (connect_focusables fs s, None)"
    using get_focusables_char [of child True] by (auto simp: on_page_added_def)
  from assms(1) obtain c cs where hs: "handlers_of notebook ''page-added'' (snd s) = c # cs"
    by (cases "handlers_of notebook ''page-added'' (snd s)") auto
  from assms fs have "f \<in> set fs" by simp
  then have "subscribed f (connect_focusables fs s)"
    by (rule subscribed_connect_focusables_new)
  then have "subscribed f (fold (\<lambda>c s. connect_focusables fs s) cs (connect_focusables fs s))"
    by (rule subscribed_fold_keep)
  then show ?thesis
    by (simp add: emit_page_added_def hs eq)
qed

theorem page_added_subscribes_witness:
  "handlers_of ex_notebook ''page-added'' (snd (fst (activate (helper_init ex_window, gtk_init))))
     \<noteq> []
   \<and> ex_view \<in> subtree ex_tab \<and> can_focus ex_view
   \<and> subscribed ex_view
        (emit_page_added ex_notebook ex_tab 0 (fst (activate (helper_init ex_window, gtk_init))))"
proof -
  let ?s = "fst (activate (helper_init ex_window, gtk_init))"
  have a: "handlers_of ex_notebook ''page-added'' (snd ?s) \<noteq> []"
    by code_simp
  have b: "ex_view \<in> subtree ex_tab"
    by (simp add: ex_view_def ex_tab_def)
  have c: "can_focus ex_view"
    by (simp add: ex_view_def)
  from page_added_subscribes [OF a b c, of 0] a b c show ?thesis
    by blast
qed

lemma fold_disconnect:
  "fold (\<lambda>(w, hid) g. disconnect w hid g) al g
     = g\<lparr>connections := filter (\<lambda>c. (c_widget c, c_id c) \<notin> set al) (connections g)\<rparr>"
proof (induction al arbitrary: g)
  case Nil
  then show ?case by simp
next
  case (Cons a al)
  obtain w hid where a: "a = (w, hid)" by (cases a)
  have "fold (\<lambda>(w, hid) g. disconnect w hid g) (a # al) g
      = fold (\<lambda>(w, hid) g. disconnect w hid g) al (disconnect w hid g)"
    by (simp add: a)
  also have "\<dots> = (disconnect w hid g)\<lparr>connections :=
      filter (\<lambda>c. (c_widget c, c_id c) \<notin> set al) (connections (disconnect w hid g))\<rparr>"
    by (rule Cons.IH)
  also have "\<dots> = g\<lparr>connections :=
      filter (\<lambda>c. (c_widget c, c_id c) \<notin> set (a # al)) (connections g)\<rparr>"
    by (auto simp: disconnect_def a intro: filter_cong)
  finally show ?case .
qed

lemma deactivate_eq:
  "deactivate (h, g)
     = (h\<lparr>handlers_per_notebook := [], handlers_per_focusable := []\<rparr>,
        g\<lparr>connections :=
            filter (\<lambda>c. (c_widget c, c_id c) \<notin> set (handlers_per_notebook h)
                       \<and> (c_widget c, c_id c) \<notin> set (handlers_per_focusable h))
                   (connections g)\<rparr>)"
  by (simp add: deactivate_def fold_disconnect conj_commute)

lemma connect_focusables_frame:
  "the_window (fst (connect_focusables fs s)) = the_window (fst s)
   \<and> handlers_per_notebook (fst (connect_focusables fs s)) = handlers_per_notebook (fst s)
   \<and> fst ` set (handlers_per_focusable (fst (connect_focusables fs s)))
       = fst ` set (handlers_per_focusable (fst s)) \<union> set fs
   \<and> focus_grabs (snd (connect_focusables fs s)) = focus_grabs (snd s)
   \<and> (\<exists>new. connections (snd (connect_focusables fs s)) = connections (snd s) @ new
          \<and> (\<forall>c\<in>set new. c_signal c = ''enter-notify-event'' \<and> c_widget c \<in> set fs))"
  unfolding connect_focusables_def
proof (induction fs arbitrary: s)
  case Nil
  then show ?case by simp
next
  case (Cons a fs)
  from Cons.IH [of "connect_focusable a s"] show ?case
    by (auto simp: connect_focusable_simps AList.dom_update)
qed

lemma connect_notebooks_frame:
  "the_window (fst (connect_notebooks ns s)) = the_window (fst s)
   \<and> handlers_per_focusable (fst (connect_notebooks ns s)) = handlers_per_focusable (fst s)
   \<and> fst ` set (handlers_per_notebook (fst (connect_notebooks ns s)))
       = fst ` set (handlers_per_notebook (fst s)) \<union> set ns
   \<and> focus_grabs (snd (connect_notebooks ns s)) = focus_grabs (snd s)
   \<and> (\<exists>new. connections (snd (connect_notebooks ns s)) = connections (snd s) @ new
          \<and> (\<forall>c\<in>set new. c_signal c = ''page-added'' \<and> c_widget c \<in> set ns))"
  unfolding connect_notebooks_def
proof (induction ns arbitrary: s)
  case Nil
  then show ?case by simp
next
  case (Cons a ns)
  from Cons.IH [of "connect_notebook a s"] show ?case
    by (auto simp: connect_notebook_simps AList.dom_update)
qed


lemma activate_eq:
  "\<exists>ns fs. get_notebooks (the_window (fst s)) True = Inr ns
      \<and> activate s = (connect_focusables fs (connect_notebooks ns s), None)"
proof -
  obtain ns where ns: "get_notebooks (the_window (fst s)) True = Inr ns"
    using get_notebooks_char [of "the_window (fst s)" True] by blast
  have "\<And>c. c \<in> set ns \<Longrightarrow>
      \<exists>r. get_focusables c True = Inr r \<and> set r = {v \<in> subtree c. can_focus v}"
    using get_focusables_char by blast
  from fold_collect [of ns "\<lambda>c. get_focusables c True" "\<lambda>c. {v \<in> subtree c. can_focus v}",
      OF this, of "[]"]
  obtain fs where "fold (\<lambda>notebook acc.
                        case acc of
                          Inl e \<Rightarrow> Inl e
                        | Inr focusables \<Rightarrow>
                            (case get_focusables notebook True of
                               Inl e \<Rightarrow> Inl e
                             | Inr found \<Rightarrow> Inr (List.union found focusables)))
                     ns (Inr []) = Inr fs"
    by blast
  with ns show ?thesis
    by (auto simp: activate_def)
qed

lemma emit_page_added_eq:
  "\<exists>fs. set fs = {v \<in> subtree child. can_focus v}
     \<and> emit_page_added notebook child page_num s
         = fold (\<lambda>c s. connect_focusables fs s)
                (handlers_of notebook ''page-added'' (snd s)) s"
proof -
  obtain fs where fs: "get_focusables child True = Inr fs"
      "set fs = {v \<in> subtree child. can_focus v}"
    using get_focusables_char [of child True] by blast
  then have "\<And>s. fst (on_page_added notebook child page_num s) = connect_focusables fs s"
    by (simp add: on_page_added_def)
  with fs show ?thesis
    by (auto simp: emit_page_added_def)
qed

lemma fold_connect_focusables_frame:
  "the_window (fst (fold (\<lambda>c s. connect_focusables fs s) cs s)) = the_window (fst s)
   \<and> handlers_per_notebook (fst (fold (\<lambda>c s. connect_focusables fs s) cs s))
       = handlers_per_notebook (fst s)
   \<and> fst ` set (handlers_per_focusable (fst s))
       \<subseteq> fst ` set (handlers_per_focusable (fst (fold (\<lambda>c s. connect_focusables fs s) cs s)))
   \<and> (\<exists>new. connections (snd (fold (\<lambda>c s. connect_focusables fs s) cs s))
               = connections (snd s) @ new
          \<and> (\<forall>c\<in>set new. c_signal c = ''enter-notify-event''))"
proof (induction cs arbitrary: s)
  case Nil
  then show ?case by simp
next
  case (Cons a cs)
  let ?s1 = "connect_focusables fs s"
  let ?s2 = "fold (\<lambda>c s. connect_focusables fs s) cs ?s1"
  have eq: "fold (\<lambda>c s. connect_focusables fs s) (a # cs) s = ?s2" by simp
  note ih = Cons.IH [of ?s1]
  note fr = connect_focusables_frame [of fs s]
  have w: "the_window (fst ?s2) = the_window (fst s)"
    using ih fr by simp
  have n: "handlers_per_notebook (fst ?s2) = handlers_per_notebook (fst s)"
    using ih fr by simp
  have k1: "fst ` set (handlers_per_focusable (fst s))
      \<subseteq> fst ` set (handlers_per_focusable (fst ?s1))"
    using fr by blast
  have k2: "fst ` set (handlers_per_focusable (fst ?s1))
      \<subseteq> fst ` set (handlers_per_focusable (fst ?s2))"
    using ih by blast
  from fr obtain new1 where new1: "connections (snd ?s1) = connections (snd s) @ new1"
      "\<forall>c\<in>set new1. c_signal c = ''enter-notify-event''"
    by blast
  from ih obtain new2 where new2: "connections (snd ?s2) = connections (snd ?s1) @ new2"
      "\<forall>c\<in>set new2. c_signal c = ''enter-notify-event''"
    by blast
  have c: "connections (snd ?s2) = connections (snd s) @ (new1 @ new2)
      \<and> (\<forall>c\<in>set (new1 @ new2). c_signal c = ''enter-notify-event'')"
    using new1 new2 by auto
  then have "\<exists>new. connections (snd ?s2) = connections (snd s) @ new
      \<and> (\<forall>c\<in>set new. c_signal c = ''enter-notify-event'')"
    by blast
  with w n k1 k2 show ?case
    unfolding eq by blast
qed

lemma activate_keys: "keys_subset s (fst (activate s))"
proof -
  obtain ns fs where "activate s = (connect_focusables fs (connect_notebooks ns s), None)"
    using activate_eq [of s] by blast
  then show ?thesis
    using connect_focusables_frame [of fs "connect_notebooks ns s"]
      connect_notebooks_frame [of ns s]
    by (simp add: keys_subset_def)
qed

lemma emit_page_added_keys: "keys_subset s (emit_page_added notebook child page_num s)"
proof -
  obtain fs where "emit_page_added notebook child page_num s
         = fold (\<lambda>c s. connect_focusables fs s)
                (handlers_of notebook ''page-added'' (snd s)) s"
    using emit_page_added_eq [of child notebook page_num s] by blast
  then show ?thesis
    using fold_connect_focusables_frame [of fs "handlers_of notebook ''page-added'' (snd s)" s]
    by (simp add: keys_subset_def)
qed

text \<open>
  C6. Entries leave the two dicts only in \<^verbatim>\<open>deactivate\<close>: every other operation on the
  helper keeps all the keys of both dicts; and when \<^verbatim>\<open>deactivate\<close> returns, both dicts
  are empty and no handler that was recorded in them is connected any more.
\<close>

theorem entries_removed_only_by_deactivate:
  assumes "step x s = (s', e)"
  shows "(x \<noteq> Deactivate \<longrightarrow> keys_subset s s')
       \<and> (x = Deactivate \<longrightarrow>
            handlers_per_notebook (fst s') = [] \<and> handlers_per_focusable (fst s') = []
            \<and> (\<forall>c\<in>set (connections (snd s')).
                  (c_widget c, c_id c) \<notin> set (handlers_per_notebook (fst s))
                  \<and> (c_widget c, c_id c) \<notin> set (handlers_per_focusable (fst s))))"
proof (cases x)
  case Activate
  with assms activate_keys [of s] show ?thesis by simp
next
  case Deactivate
  with assms show ?thesis
    by (cases s) (auto simp: deactivate_eq)
next
  case (Page_added notebook child page_num)
  with assms emit_page_added_keys [of s notebook child page_num] show ?thesis by auto
next
  case (Enter_notify widget event)
  with assms show ?thesis
    by (auto simp: emit_enter_notify_eq keys_subset_def)
qed

theorem entries_removed_only_by_deactivate_witness:
  "keys_subset (helper_init ex_window, gtk_init)
     (fst (step Activate (helper_init ex_window, gtk_init)))
   \<and> handlers_per_notebook
       (fst (fst (step Deactivate (fst (activate (helper_init ex_window, gtk_init)))))) = []
   \<and> handlers_per_focusable
       (fst (fst (step Deactivate (fst (activate (helper_init ex_window, gtk_init)))))) = []
   \<and> connections
       (snd (fst (step Deactivate (fst (activate (helper_init ex_window, gtk_init)))))) = []"
proof -
  let ?s0 = "(helper_init ex_window, gtk_init)"
  let ?s1 = "fst (activate ?s0)"
  have a: "step Activate ?s0 = (fst (step Activate ?s0), snd (step Activate ?s0))"
    by simp
  have d: "step Deactivate ?s1 = (fst (step Deactivate ?s1), snd (step Deactivate ?s1))"
    by simp
  have e: "connections (snd (fst (step Deactivate ?s1))) = []"
    by code_simp
  from entries_removed_only_by_deactivate [OF a] entries_removed_only_by_deactivate [OF d] e
  show ?thesis
    by simp
qed

lemma notebooks_inv_connect_focusables:
  assumes "notebooks_inv w ns s"
  shows "notebooks_inv w ns (connect_focusables fs s)"
proof -
  from connect_focusables_frame [of fs s]
  obtain new where new: "connections (snd (connect_focusables fs s)) = connections (snd s) @ new"
      "\<forall>c\<in>set new. c_signal c = ''enter-notify-event''"
    and rest: "the_window (fst (connect_focusables fs s)) = the_window (fst s)"
      "handlers_per_notebook (fst (connect_focusables fs s)) = handlers_per_notebook (fst s)"
    by blast
  from new(2) have "filter (\<lambda>c. c_signal c = ''page-added'') new = []"
    by (induction new) auto
  with assms new(1) rest show ?thesis
    by (simp add: notebooks_inv_def image_Un)
qed

lemma notebooks_inv_connect_notebooks:
  assumes "notebooks_inv w ns s"
  shows "notebooks_inv w ns (connect_notebooks ns s)"
proof -
  from connect_notebooks_frame [of ns s]
  obtain new where new: "connections (snd (connect_notebooks ns s)) = connections (snd s) @ new"
      "\<forall>c\<in>set new. c_signal c = ''page-added'' \<and> c_widget c \<in> set ns"
    and rest: "the_window (fst (connect_notebooks ns s)) = the_window (fst s)"
      "fst ` set (handlers_per_notebook (fst (connect_notebooks ns s)))
         = fst ` set (handlers_per_notebook (fst s)) \<union> set ns"
    by blast
  from new(2) have "c_widget ` set (filter (\<lambda>c. c_signal c = ''page-added'') new) \<subseteq> set ns"
    by auto
  with assms new(1) rest show ?thesis
    by (simp add: notebooks_inv_def image_Un)
qed

lemma notebooks_inv_activate:
  assumes "notebooks_inv w ns s" and "get_notebooks w True = Inr ns"
  shows "notebooks_inv w ns (fst (activate s))"
proof -
  from assms(1) have w: "the_window (fst s) = w"
    by (simp add: notebooks_inv_def)
  obtain ns' fs where "get_notebooks (the_window (fst s)) True = Inr ns'"
      and eq: "activate s = (connect_focusables fs (connect_notebooks ns' s), None)"
    using activate_eq [of s] by blast
  with w assms(2) have "ns' = ns" by simp
  with eq assms(1) show ?thesis
    by (simp add: notebooks_inv_connect_focusables notebooks_inv_connect_notebooks)
qed

lemma notebooks_inv_deactivate:
  assumes "notebooks_inv w ns s"
  shows "notebooks_inv w ns (deactivate s)"
proof -
  obtain h g where s: "s = (h, g)" by (cases s)
  have "set (filter (\<lambda>c. c_signal c = ''page-added'')
          (filter (\<lambda>c. (c_widget c, c_id c) \<notin> set (handlers_per_notebook h)
                       \<and> (c_widget c, c_id c) \<notin> set (handlers_per_focusable h))
                  (connections g)))
        \<subseteq> set (filter (\<lambda>c. c_signal c = ''page-added'') (connections g))"
    by auto
  then have "c_widget ` set (filter (\<lambda>c. c_signal c = ''page-added'')
          (filter (\<lambda>c. (c_widget c, c_id c) \<notin> set (handlers_per_notebook h)
                       \<and> (c_widget c, c_id c) \<notin> set (handlers_per_focusable h))
                  (connections g)))
        \<subseteq> c_widget ` set (filter (\<lambda>c. c_signal c = ''page-added'') (connections g))"
    by (rule image_mono)
  with assms show ?thesis
    unfolding s deactivate_eq notebooks_inv_def by simp blast
qed

lemma notebooks_inv_fold:
  "notebooks_inv w ns s \<Longrightarrow> notebooks_inv w ns (fold (\<lambda>c s. connect_focusables fs s) cs s)"
  by (induction cs arbitrary: s) (simp_all add: notebooks_inv_connect_focusables)

lemma notebooks_inv_emit_page_added:
  assumes "notebooks_inv w ns s"
  shows "notebooks_inv w ns (emit_page_added notebook child page_num s)"
proof -
  obtain fs where "emit_page_added notebook child page_num s
         = fold (\<lambda>c s. connect_focusables fs s)
                (handlers_of notebook ''page-added'' (snd s)) s"
    using emit_page_added_eq [of child notebook page_num s] by blast
  with assms show ?thesis
    by (simp add: notebooks_inv_fold)
qed

lemma notebooks_inv_emit_enter_notify:
  "notebooks_inv w ns s \<Longrightarrow> notebooks_inv w ns (emit_enter_notify widget event s)"
  by (simp add: emit_enter_notify_eq notebooks_inv_def)

lemma notebooks_inv_step:
  assumes "notebooks_inv w ns s" and "get_notebooks w True = Inr ns"
  shows "notebooks_inv w ns (fst (step x s))"
proof (cases x)
  case Activate
  with assms show ?thesis by (simp add: notebooks_inv_activate)
next
  case Deactivate
  with assms show ?thesis by (simp add: notebooks_inv_deactivate)
next
  case (Page_added notebook child page_num)
  with assms show ?thesis by (simp add: notebooks_inv_emit_page_added)
next
  case (Enter_notify widget event)
  with assms show ?thesis by (simp add: notebooks_inv_emit_enter_notify)
qed

lemma notebooks_inv_run:
  assumes "get_notebooks w True = Inr ns"
  shows "notebooks_inv w ns s \<Longrightarrow> notebooks_inv w ns (fst (run ops s))"
proof (induction ops arbitrary: s)
  case Nil
  then show ?case by simp
next
  case (Cons x ops)
  from Cons.prems assms have 1: "notebooks_inv w ns (fst (step x s))"
    by (rule notebooks_inv_step)
  show ?case
  proof (cases "snd (step x s)")
    case None
    then have "run (x # ops) s = run ops (fst (step x s))"
      by (cases "step x s") simp
    with Cons.IH [OF 1] show ?thesis by simp
  next
    case (Some e)
    then have "run (x # ops) s = (fst (step x s), Some e)"
      by (cases "step x s") simp
    with 1 show ?thesis by simp
  qed
qed

text \<open>
  C8. Whatever happens to a helper after its creation, the dict of notebooks only holds
  notebooks that the tree walk of \<^verbatim>\<open>activate\<close> finds in the window. A notebook that is
  not among them, such as one inside a page added later, has no \<^verbatim>\<open>page-added\<close> handler,
  so a page added to it is never scanned: the emission leaves the state as it is.
\<close>

theorem later_notebooks_never_connected:
  assumes "run ops (helper_init w, g0) = (s, err)"
    and "connections g0 = []"
    and "get_notebooks w True = Inr ns"
  shows "fst ` set (handlers_per_notebook (fst s)) \<subseteq> set ns
       \<and> (nb \<notin> set ns \<longrightarrow>
            handlers_of nb ''page-added'' (snd s) = []
            \<and> emit_page_added nb child page_num s = s)"
proof -
  have "notebooks_inv w ns (helper_init w, g0)"
    using assms(2) by (simp add: notebooks_inv_def helper_init_def)
  from notebooks_inv_run [OF assms(3) this, of ops] assms(1)
  have inv: "notebooks_inv w ns s" by simp
  then have keys: "fst ` set (handlers_per_notebook (fst s)) \<subseteq> set ns"
    by (simp add: notebooks_inv_def)
  have "handlers_of nb ''page-added'' (snd s) = []" if "nb \<notin> set ns"
  proof -
    have "c_widget c \<noteq> nb" if "c \<in> set (connections (snd s))" "c_signal c = ''page-added''" for c
      using inv that \<open>nb \<notin> set ns\<close> by (auto simp: notebooks_inv_def)
    then show ?thesis
      by (auto simp: handlers_of_def filter_empty_conv)
  qed
  with keys show ?thesis
    by (simp add: emit_page_added_def)
qed

theorem later_notebooks_never_connected_witness:
  "connections gtk_init = []
   \<and> get_notebooks ex_window True = Inr [ex_notebook]
   \<and> ex_inner \<notin> set [ex_notebook]
   \<and> fst ` set (handlers_per_notebook
        (fst (fst (run [Activate, Page_added ex_notebook ex_page 0]
                     (helper_init ex_window, gtk_init)))))
       \<subseteq> set [ex_notebook]
   \<and> emit_page_added ex_inner ex_tab 0
        (fst (run [Activate, Page_added ex_notebook ex_page 0] (helper_init ex_window, gtk_init)))
       = fst (run [Activate, Page_added ex_notebook ex_page 0] (helper_init ex_window, gtk_init))"
proof -
  let ?ops = "[Activate, Page_added ex_notebook ex_page 0]"
  let ?r = "run ?ops (helper_init ex_window, gtk_init)"
  have a: "?r = (fst ?r, snd ?r)" by simp
  have b: "connections gtk_init = []" by (simp add: gtk_init_def)
  have c: "get_notebooks ex_window True = Inr [ex_notebook]"
    by code_simp
  have d: "ex_inner \<notin> set [ex_notebook]"
    by (simp add: ex_inner_def ex_notebook_def)
  from later_notebooks_never_connected [OF a b c, of ex_inner ex_tab 0] b c d
  show ?thesis by simp
qed

text \<open>
  C2. The specification asks that in every state a helper can reach, a tracked widget
  has at most one active handler connected by the helper. When a page is added twice (a
  tab taken out of the notebook and put back), the second \<^verbatim>\<open>page-added\<close> connects the
  tab's view again without disconnecting the first handler: the view has two active
  \<^verbatim>\<open>enter-notify-event\<close> handlers while the dict records only the later one.
\<close>

theorem repeated_page_added_connects_twice:
  "length (handlers_of ex_view ''enter-notify-event''
     (snd (fst (run [Activate, Page_added ex_notebook ex_tab 0, Page_added ex_notebook ex_tab 0]
        (helper_init ex_window, gtk_init))))) = 2
   \<and> map_of (handlers_per_focusable
       (fst (fst (run [Activate, Page_added ex_notebook ex_tab 0, Page_added ex_notebook ex_tab 0]
          (helper_init ex_window, gtk_init))))) ex_view = Some 4"
  by code_simp

text \<open>
  C3. The specification asks that every active handler of the helper has its id in the
  dict and that none is left active after \<^verbatim>\<open>deactivate\<close>. After the same sequence of
  events, handler 3 on the view is connected and absent from the dict (which holds 4);
  \<^verbatim>\<open>deactivate\<close> disconnects what the dicts hold, so handler 3 stays connected and a
  later pointer-enter event on the view still grabs the focus.
\<close>

theorem deactivate_leaves_handler_connected:
  "run [Activate, Page_added ex_notebook ex_tab 0, Page_added ex_notebook ex_tab 0]
       (helper_init ex_window, gtk_init)
     = ((\<lparr>the_window = ex_window,
          handlers_per_notebook = [(ex_notebook, 1)],
          handlers_per_focusable = [(ex_notebook, 2), (ex_view, 4)]\<rparr>,
         \<lparr>next_id = 5,
          connections = [Connection ex_notebook ''page-added'' 1,
                         Connection ex_notebook ''enter-notify-event'' 2,
                         Connection ex_view ''enter-notify-event'' 3,
                         Connection ex_view ''enter-notify-event'' 4],
          enter_mask = [ex_view, ex_notebook], focus_grabs = []\<rparr>), None)
   \<and> run [Activate, Page_added ex_notebook ex_tab 0, Page_added ex_notebook ex_tab 0,
          Deactivate, Enter_notify ex_view (Event 10 20)]
       (helper_init ex_window, gtk_init)
     = ((\<lparr>the_window = ex_window,
          handlers_per_notebook = [], handlers_per_focusable = []\<rparr>,
         \<lparr>next_id = 5,
          connections = [Connection ex_view ''enter-notify-event'' 3],
          enter_mask = [ex_view, ex_notebook], focus_grabs = [ex_view]\<rparr>), None)"
  by code_simp

section \<open>Properties of the plugin\<close>

text \<open>
  C9. \<^verbatim>\<open>PointerFocusPlugin.deactivate(window)\<close> for a window that is not tracked raises
  KeyError and leaves the plugin (and the host) as they were; and once a call for
  \<open>window\<close> has succeeded, the window is no longer tracked, so the next call raises
  KeyError too.
\<close>

theorem plugin_deactivate_untracked:
  "(map_of (instances p) window = None \<longrightarrow>
      plugin_deactivate window (p, g) = ((p, g), Some KeyError))
   \<and> (plugin_deactivate window (p, g) = ((p', g'), None) \<longrightarrow>
      plugin_deactivate window (p', g') = ((p', g'), Some KeyError))"
  by (auto simp: AList.delete_update_same AList.delete_conv' split: option.splits prod.splits)

theorem plugin_deactivate_untracked_witness:
  "map_of (instances plugin_init) ex_window = None
   \<and> plugin_deactivate ex_window (plugin_init, gtk_init)
       = ((plugin_init, gtk_init), Some KeyError)
   \<and> plugin_deactivate ex_window
        (fst (plugin_deactivate ex_window (fst (plugin_activate ex_window (plugin_init, gtk_init)))))
       = (fst (plugin_deactivate ex_window
                 (fst (plugin_activate ex_window (plugin_init, gtk_init)))),
          Some KeyError)"
proof -
  let ?s1 = "fst (plugin_activate ex_window (plugin_init, gtk_init))"
  let ?s2 = "fst (plugin_deactivate ex_window ?s1)"
  have a: "map_of (instances plugin_init) ex_window = None"
    by (simp add: plugin_init_def)
  have b: "plugin_deactivate ex_window (fst ?s1, snd ?s1) = ((fst ?s2, snd ?s2), None)"
    by code_simp
  from plugin_deactivate_untracked [of plugin_init ex_window gtk_init]
    plugin_deactivate_untracked [of "fst ?s1" ex_window "snd ?s1" "fst ?s2" "snd ?s2"] a b
  show ?thesis by simp
qed

end
